theory Spec2Isabelle
  imports Complex_Main
begin

section \<open>Batching helper: \<open>chunker\<close> (rag.py) and the batch upsert of \<open>index_files\<close>\<close>

text \<open>
  The exceptions of the Python sources that the model distinguishes. A NameError carries
  the unbound name; a collaborator's exception carries its message, as \<open>str(e)\<close> is
  shown to the user.
\<close>

datatype py_error = ValueError | NameError string | CollaboratorError string

text \<open>
  \<^verbatim>\<open>range(pos, stop, step)\<close> for a positive step, as the list of positions it yields.
  The zero and the negative step are handled by the caller below.
\<close>

function range_from :: "nat \<Rightarrow> nat \<Rightarrow> nat \<Rightarrow> nat list" where
  "range_from pos stop step =
     (if 0 < step \<and> pos < stop then pos # range_from (pos + step) stop step else [])"
  by pat_completeness auto
termination
  by (relation "measure (\<lambda>(pos, stop, step). stop - pos)") auto

declare range_from.simps [simp del]

text \<open>The slice \<^verbatim>\<open>seq[lo:hi]\<close> for \<open>0 \<le> lo \<le> hi\<close>; Python clips both ends to the length.\<close>

definition slice :: "'a list \<Rightarrow> nat \<Rightarrow> nat \<Rightarrow> 'a list" where
  "slice seq lo hi = take (hi - lo) (drop lo seq)"

text \<open>
  \<^verbatim>\<open>
  def chunker(seq, batch_size):
      return [seq[pos:pos + batch_size] for pos in range(0, len(seq), batch_size)]
  \<close>
  A zero step makes \<^verbatim>\<open>range\<close> raise ValueError; a negative step gives an empty range.
\<close>

definition chunker :: "'a list \<Rightarrow> int \<Rightarrow> py_error + 'a list list" where
  "chunker seq batch_size =
     (if batch_size = 0 then Inl ValueError
      else if batch_size < 0 then Inr []
      else Inr (map (\<lambda>pos. slice seq pos (pos + nat batch_size))
                    (range_from 0 (length seq) (nat batch_size))))"

text \<open>
  \<open>index_files\<close> of the Pinecone indexer builds its upsert batches with the same
  comprehension and the constant batch size 50.
\<close>

definition upsert_batches :: "'a list \<Rightarrow> 'a list list" where
  "upsert_batches records =
     map (\<lambda>i. slice records i (i + 50)) (range_from 0 (length records) 50)"

section \<open>Streaming response splitter (app.py, Step 4 of the chat handler)\<close>

text \<open>
  Python strings are modelled as \<open>string\<close>; one \<open>char\<close> stands for one character of the
  Python string, restricted to the code points below 256. The splitter only inspects the
  ASCII characters of the two tags and, for \<^verbatim>\<open>strip()\<close>, whitespace.
\<close>

definition think_open :: string where
  "think_open = ''<think>''"

definition think_close :: string where
  "think_close = ''</think>''"

text \<open>
  The first occurrence of a literal \<open>p\<close> in \<open>s\<close>: the text before it and the text after it.
\<close>

fun split_first :: "'a list \<Rightarrow> 'a list \<Rightarrow> ('a list \<times> 'a list) option" where
  "split_first p [] = (if p = [] then Some ([], []) else None)"
| "split_first p (c # cs) =
     (if take (length p) (c # cs) = p then Some ([], drop (length p) (c # cs))
      else (case split_first p cs of
              None \<Rightarrow> None
            | Some (before, after) \<Rightarrow> Some (c # before, after)))"

text \<open>
  \<^verbatim>\<open>re.search(r'<think>(.*?)</think>', s, re.DOTALL)\<close>. The regular expression engine
  takes the leftmost start at which the whole pattern matches and, the group being lazy,
  the nearest closing tag after it. A closing tag that follows a later opening tag also
  follows the first one, so the match, if any, starts at the first opening tag and ends
  at the first closing tag found after that tag. The result is the text before the match,
  \<^verbatim>\<open>group(1)\<close>, and the text after the match.
\<close>

definition think_match :: "string \<Rightarrow> (string \<times> string \<times> string) option" where
  "think_match s =
     (case split_first think_open s of
        None \<Rightarrow> None
      | Some (pre, rest) \<Rightarrow>
          (case split_first think_close rest of
             None \<Rightarrow> None
           | Some (body, post) \<Rightarrow> Some (pre, body, post)))"

lemma split_first_length:
  "split_first p s = Some (before, after) \<Longrightarrow>
   length before + length p + length after = length s"
proof (induction s arbitrary: before)
  case Nil
  then show ?case by (simp split: if_splits)
next
  case (Cons c cs)
  show ?case
  proof (cases "take (length p) (c # cs) = p")
    case True
    with Cons.prems have b: "before = []" and a: "after = drop (length p) (c # cs)"
      by simp_all
    from arg_cong [OF True, of length] have "length p \<le> length (c # cs)" by simp
    with a b show ?thesis by simp
  next
    case False
    with Cons.prems obtain b' where "split_first p cs = Some (b', after)" and "before = c # b'"
      by (auto split: option.splits)
    with Cons.IH show ?thesis by simp
  qed
qed

lemma think_match_shorter:
  "think_match s = Some (pre, body, post) \<Longrightarrow> length post < length s"
  unfolding think_match_def
  by (auto split: option.splits dest!: split_first_length simp: think_open_def)

text \<open>
  \<^verbatim>\<open>re.sub(think_pattern, '', s, flags=re.DOTALL)\<close>: every match is deleted, scanning from
  the left and resuming after the end of each match. The pattern has no empty match.
\<close>

function remove_think :: "string \<Rightarrow> string" where
  "remove_think s =
     (case think_match s of
        None \<Rightarrow> s
      | Some (pre, body, post) \<Rightarrow> pre @ remove_think post)"
  by pat_completeness auto
termination
  by (relation "measure length") (auto dest: think_match_shorter)

declare remove_think.simps [simp del]

text \<open>
  \<^verbatim>\<open>str.strip()\<close> removes leading and trailing whitespace. Among the code points below
  256, \<^verbatim>\<open>str.isspace\<close> holds for 9 to 13, 28 to 32, 133 and 160.
\<close>

definition isspace :: "char \<Rightarrow> bool" where
  "isspace c = (of_char c \<in> {9, 10, 11, 12, 13, 28, 29, 30, 31, 32, 133, 160 :: nat})"

definition strip :: "string \<Rightarrow> string" where
  "strip s = rev (dropWhile isspace (rev (dropWhile isspace s)))"

text \<open>
  The extraction that the handler performs after every fragment and once more when the
  stream has ended:
  \<^verbatim>\<open>
  think_match = re.search(think_pattern, full_response, re.DOTALL)
  if think_match:
      thinking_process = think_match.group(1).strip()
      final_response = re.sub(think_pattern, '', full_response, flags=re.DOTALL).strip()
  else:
      thinking_process = None
      final_response = full_response
  \<close>
  The result is the pair \<open>(thinking_process, final_response)\<close>.
\<close>

definition extract_thinking :: "string \<Rightarrow> string option \<times> string" where
  "extract_thinking full_response =
     (case think_match full_response of
        Some (pre, body, post) \<Rightarrow> (Some (strip body), strip (remove_think full_response))
      | None \<Rightarrow> (None, full_response))"

text \<open>
  A fragment of a streamed response: a plain string, an object with a \<open>content\<close>
  attribute, or anything else, which adds nothing to the accumulated text.
\<close>

datatype chunk = StrChunk string | ContentChunk string | OtherChunk

fun chunk_text :: "chunk \<Rightarrow> string" where
  "chunk_text (StrChunk s) = s"
| "chunk_text (ContentChunk s) = s"
| "chunk_text OtherChunk = []"

record stream_state =
  accumulated_text :: string
  reasoning_span :: "string option"
  visible_text :: string

text \<open>Before the first fragment nothing has been accumulated and nothing is displayed.\<close>

definition initial_stream :: stream_state where
  "initial_stream = \<lparr>accumulated_text = [], reasoning_span = None, visible_text = []\<rparr>"

text \<open>The body of the loop over the fragments (the streaming branch).\<close>

definition on_chunk :: "stream_state \<Rightarrow> chunk \<Rightarrow> stream_state" where
  "on_chunk st c =
     (let full_response = accumulated_text st @ chunk_text c;
          (thinking_process, current_final_response) = extract_thinking full_response
      in \<lparr>accumulated_text = full_response,
          reasoning_span = thinking_process,
          visible_text = current_final_response\<rparr>)"

definition consume :: "chunk list \<Rightarrow> stream_state" where
  "consume chunks = foldl on_chunk initial_stream chunks"

subsection \<open>The specification's notions of a delimiter pair\<close>

text \<open>The literal \<open>p\<close> occurs in \<open>s\<close> at position \<open>i\<close>.\<close>

definition occurs_at :: "'a list \<Rightarrow> 'a list \<Rightarrow> nat \<Rightarrow> bool" where
  "occurs_at p s i = (take (length p) (drop i s) = p)"

text \<open>
  A text contains a complete delimiter pair when an opening tag occurs in it and a
  closing tag occurs after the end of that opening tag.
\<close>

definition has_pair :: "string \<Rightarrow> bool" where
  "has_pair T =
     (\<exists>i \<in> set [0..<length T]. \<exists>j \<in> set [0..<length T].
        occurs_at think_open T i \<and> i + length think_open \<le> j \<and> occurs_at think_close T j)"

text \<open>
  The contents of all complete spans of a text, from left to right (what
  \<^verbatim>\<open>re.findall\<close> returns for the pattern), and their concatenation, which the
  specification's data model gives as the value of \<open>reasoning_span\<close>.
\<close>

function all_spans :: "string \<Rightarrow> string list" where
  "all_spans s =
     (case think_match s of
        None \<Rightarrow> []
      | Some (pre, body, post) \<Rightarrow> body # all_spans post)"
  by pat_completeness auto
termination
  by (relation "measure length") (auto dest: think_match_shorter)

declare all_spans.simps [simp del]

definition spec_reasoning_span :: "string \<Rightarrow> string option" where
  "spec_reasoning_span s = (if all_spans s = [] then None else Some (concat (all_spans s)))"

section \<open>Retrieval from the primary index (the Pinecone indexer of the Drive integration)\<close>

text \<open>
  A metadata dictionary is an association list from keys to values. Similarity scores
  are modelled as real numbers.
\<close>

type_synonym metadata = "(string \<times> string) list"

text \<open>\<^verbatim>\<open>d.get(key, default)\<close>.\<close>

definition dict_get :: "metadata \<Rightarrow> string \<Rightarrow> string \<Rightarrow> string" where
  "dict_get d key dflt = (case map_of d key of None \<Rightarrow> dflt | Some v \<Rightarrow> v)"

text \<open>One entry of \<open>query_results.matches\<close>.\<close>

record match =
  match_id :: string
  score :: real
  match_metadata :: metadata

text \<open>The dictionary that \<open>retrieve\<close> builds for a match that passes the threshold.\<close>

record retrieved =
  doc_page_content :: string
  doc_metadata :: metadata
  doc_score :: real
  doc_id :: string

text \<open>A LangChain \<open>Document\<close>.\<close>

record document =
  page_content :: string
  metadata :: metadata

text \<open>
  The indexer with its two collaborators: the embedder and the index. Each call either
  raises or returns; the query result may lack the \<open>matches\<close> attribute (\<open>None\<close>).
\<close>

record pinecone_indexer =
  namespace :: string
  get_embedding :: "string \<Rightarrow> py_error + real list"
  index_query :: "string \<Rightarrow> real list \<Rightarrow> nat \<Rightarrow> py_error + match list option"

definition to_retrieved :: "match \<Rightarrow> retrieved" where
  "to_retrieved m =
     \<lparr>doc_page_content = dict_get (match_metadata m) ''text'' '''',
      doc_metadata = filter (\<lambda>(k, v). k \<noteq> ''text'') (match_metadata m),
      doc_score = score m,
      doc_id = match_id m\<rparr>"

text \<open>
  \<open>PineconeIndexer.retrieve\<close>. The whole body is inside \<^verbatim>\<open>try\<close>; on any exception
  the method prints the error to standard output and returns the empty list.
\<close>

definition retrieve :: "pinecone_indexer \<Rightarrow> string \<Rightarrow> nat \<Rightarrow> real \<Rightarrow> retrieved list" where
  "retrieve self query top_k score_threshold =
     (case get_embedding self query of
        Inl e \<Rightarrow> []
      | Inr query_embedding \<Rightarrow>
          (case index_query self (namespace self) query_embedding top_k of
             Inl e \<Rightarrow> []
           | Inr None \<Rightarrow> []
           | Inr (Some matches) \<Rightarrow>
               map to_retrieved (filter (\<lambda>m. score m \<ge> score_threshold) matches)))"

definition retrieve_as_langchain_docs ::
    "pinecone_indexer \<Rightarrow> string \<Rightarrow> nat \<Rightarrow> real \<Rightarrow> document list" where
  "retrieve_as_langchain_docs self query top_k score_threshold =
     map (\<lambda>result. \<lparr>page_content = doc_page_content result, metadata = doc_metadata result\<rparr>)
         (retrieve self query top_k score_threshold)"

section \<open>The chat handler (app.py)\<close>

text \<open>
  The secondary vector store, seen through the one call the handler makes:
  \<^verbatim>\<open>as_retriever(search_type="similarity_score_threshold",
  search_kwargs={"k": k, "score_threshold": t}).invoke(query)\<close>.
\<close>

type_synonym vector_store = "nat \<Rightarrow> real \<Rightarrow> string \<Rightarrow> py_error + document list"

text \<open>
  What an agent's \<open>run\<close> returns: an iterable without a \<open>content\<close> attribute, which
  yields fragments and may raise while it is consumed; an object with a \<open>content\<close>
  attribute; or any other object, of which the handler takes \<^verbatim>\<open>str(...)\<close>.
\<close>

datatype agent_response =
    Stream "chunk list" "py_error option"
  | WithContent string
  | Opaque string

type_synonym agent = "string \<Rightarrow> py_error + agent_response"

datatype role = User | Assistant

record turn =
  turn_role :: role
  content :: string

record session_state =
  rag_enabled :: bool
  force_web_search :: bool
  use_web_search :: bool
  exa_api_key :: string
  similarity_threshold :: real
  session_indexer :: "pinecone_indexer option"
  session_vector_store :: "vector_store option"
  history :: "turn list"

text \<open>
  The collaborators that the handler obtains during a turn: the constructor of the
  indexer (it contacts the index service), and the two agent factories.
\<close>

record collaborators =
  new_pinecone_indexer :: "py_error + pinecone_indexer"
  get_web_search_agent :: "py_error + agent"
  get_rag_agent :: "py_error + agent"

text \<open>The notices of the handler (\<open>st.info\<close> and \<open>st.error\<close>), by their message.\<close>

datatype notice =
    FoundRelevantDocuments nat real
  | NoDocumentsFallingBackToWeb
  | ErrorRetrievingDocuments py_error
  | FallingBackToVectorStore
  | UsingWebSearchRequested
  | UsingWebSearchFallback
  | WebSearchError py_error
  | NoRelevantInformation
  | ErrorGeneratingResponse py_error

text \<open>
  What a turn does that can be observed: notices, calls of collaborators with their
  arguments, and an exception that no handler catches, which ends the script run.
\<close>

datatype event =
    Notice notice
  | PrimaryRetrieve string nat real
  | SecondaryRetrieve string nat real
  | WebSearchRun string
  | ModelRun string
  | Uncaught py_error

definition newline :: string where
  "newline = [CHR 0x0A]"

text \<open>\<^verbatim>\<open>sep.join(parts)\<close>.\<close>

fun join :: "string \<Rightarrow> string list \<Rightarrow> string" where
  "join sep [] = []"
| "join sep [x] = x"
| "join sep (x # y # ys) = x @ sep @ join sep (y # ys)"

definition docs_context :: "document list \<Rightarrow> string" where
  "docs_context docs = join (newline @ newline) (map page_content docs)"

text \<open>
  \<open>check_document_relevance\<close>: the events it causes and what it returns or raises.
\<close>

definition check_document_relevance ::
    "string \<Rightarrow> vector_store option \<Rightarrow> real \<Rightarrow> event list \<times> (py_error + bool \<times> document list)" where
  "check_document_relevance query vector_store threshold =
     (case vector_store of
        None \<Rightarrow> ([], Inr (False, []))
      | Some vs \<Rightarrow>
          ([SecondaryRetrieve query 5 threshold],
           (case vs 5 threshold query of
              Inl e \<Rightarrow> Inl e
            | Inr docs \<Rightarrow> Inr (docs \<noteq> [], docs))))"

subsection \<open>Step 2: document search\<close>

text \<open>
  The \<^verbatim>\<open>try\<close> block of Step 2: the indexer is taken from the session or constructed
  and stored there, then queried with \<open>top_k = 5\<close> and the session's threshold. Only the
  constructor can raise here, since \<open>retrieve\<close> catches every exception of the query.
\<close>

definition primary_search ::
    "collaborators \<Rightarrow> session_state \<Rightarrow> string
       \<Rightarrow> event list \<times> session_state \<times> (py_error + document list)" where
  "primary_search cs st query =
     (let t = similarity_threshold st in
      case session_indexer st of
        Some ix \<Rightarrow>
          ([PrimaryRetrieve query 5 t], st, Inr (retrieve_as_langchain_docs ix query 5 t))
      | None \<Rightarrow>
          (case new_pinecone_indexer cs of
             Inl e \<Rightarrow> ([], st, Inl e)
           | Inr ix \<Rightarrow>
               ([PrimaryRetrieve query 5 t], st\<lparr>session_indexer := Some ix\<rparr>,
                Inr (retrieve_as_langchain_docs ix query 5 t))))"

text \<open>
  What follows a list of documents, in the \<^verbatim>\<open>try\<close> block and in the fallback alike:
  the context is the join of the page contents when the list is not empty; otherwise a
  notice announces the web search when it is enabled.
\<close>

definition use_docs :: "session_state \<Rightarrow> document list \<Rightarrow> event list \<times> string" where
  "use_docs st docs =
     (if docs \<noteq> [] then
        ([Notice (FoundRelevantDocuments (length docs) (similarity_threshold st))],
         docs_context docs)
      else if use_web_search st then ([Notice NoDocumentsFallingBackToWeb], [])
      else ([], []))"

text \<open>
  Step 2 as a whole. The result is the context and the documents, or the exception that
  the secondary store raised inside the \<^verbatim>\<open>except\<close> block, which nothing catches.
\<close>

definition search_strategy ::
    "collaborators \<Rightarrow> session_state \<Rightarrow> string
       \<Rightarrow> event list \<times> session_state \<times> (py_error + string \<times> document list)" where
  "search_strategy cs st query =
     (if force_web_search st then ([], st, Inr ([], []))
      else
        (case primary_search cs st query of
           (ev, st', Inr docs) \<Rightarrow>
             (let (ev', context) = use_docs st' docs in (ev @ ev', st', Inr (context, docs)))
         | (ev, st', Inl e) \<Rightarrow>
             (let ev1 = ev @ [Notice (ErrorRetrievingDocuments e)] in
              case session_vector_store st' of
                None \<Rightarrow> (ev1, st', Inr ([], []))
              | Some vs \<Rightarrow>
                  (let ev2 = ev1 @ [Notice FallingBackToVectorStore,
                                   SecondaryRetrieve query 5 (similarity_threshold st')] in
                   case vs 5 (similarity_threshold st') query of
                     Inl e2 \<Rightarrow> (ev2, st', Inl e2)
                   | Inr docs \<Rightarrow>
                       (let (ev', context) = use_docs st' docs
                        in (ev2 @ ev', st', Inr (context, docs)))))))"

subsection \<open>Step 3: web search\<close>

text \<open>The text collected from an agent's response, or the exception raised meanwhile.\<close>

fun collect :: "agent_response \<Rightarrow> py_error + string" where
  "collect (Stream chunks None) = Inr (concat (map chunk_text chunks))"
| "collect (Stream chunks (Some e)) = Inl e"
| "collect (WithContent s) = Inr s"
| "collect (Opaque s) = Inr s"

text \<open>
  The body of the \<^verbatim>\<open>try\<close> block around the web search: the agent is obtained, run on
  the query and its output collected; \<open>used\<close> is the notice shown when the output is not
  empty. An exception leaves the context as it was.
\<close>

definition run_web_search ::
    "collaborators \<Rightarrow> string \<Rightarrow> string \<Rightarrow> notice \<Rightarrow> event list \<times> string" where
  "run_web_search cs query context used =
     (case get_web_search_agent cs of
        Inl e \<Rightarrow> ([Notice (WebSearchError e)], context)
      | Inr web_search_agent \<Rightarrow>
          (case web_search_agent query of
             Inl e \<Rightarrow> ([WebSearchRun query, Notice (WebSearchError e)], context)
           | Inr response \<Rightarrow>
               (case collect response of
                  Inl e \<Rightarrow> ([WebSearchRun query, Notice (WebSearchError e)], context)
                | Inr web_results \<Rightarrow>
                    (if web_results \<noteq> [] then
                       ([WebSearchRun query, Notice used],
                        ''Web Search Results:'' @ newline @ web_results)
                     else ([WebSearchRun query], context)))))"

definition web_search_step ::
    "collaborators \<Rightarrow> session_state \<Rightarrow> string \<Rightarrow> string \<Rightarrow> event list \<times> string" where
  "web_search_step cs st query context =
     (if (force_web_search st \<or> context = []) \<and> use_web_search st \<and> exa_api_key st \<noteq> []
      then run_web_search cs query context
             (if force_web_search st then UsingWebSearchRequested else UsingWebSearchFallback)
      else ([], context))"

subsection \<open>Step 4: generation\<close>

text \<open>
  The final response computed from the model's response, or the exception raised on the
  way. Module \<open>re\<close> is imported, and \<open>think_pattern\<close> assigned, only in the body of the
  loop over the fragments: the branch for a response that is not a stream, and the final
  extraction after a stream without fragments, raise NameError.
\<close>

fun final_response :: "agent_response \<Rightarrow> py_error + string" where
  "final_response (Stream chunks (Some e)) = Inl e"
| "final_response (Stream [] None) = Inl (NameError ''re'')"
| "final_response (Stream chunks None) =
     Inr (snd (extract_thinking (accumulated_text (consume chunks))))"
| "final_response (WithContent s) = Inl (NameError ''re'')"
| "final_response (Opaque s) = Inl (NameError ''re'')"

text \<open>
  From the call of the model to the append to the history: on any exception the error is
  shown and the session is left as it was.
\<close>

definition respond ::
    "agent \<Rightarrow> session_state \<Rightarrow> string \<Rightarrow> event list \<times> session_state" where
  "respond rag_agent st full_prompt =
     (case rag_agent full_prompt of
        Inl e \<Rightarrow> ([ModelRun full_prompt, Notice (ErrorGeneratingResponse e)], st)
      | Inr response \<Rightarrow>
          (case final_response response of
             Inl e \<Rightarrow> ([ModelRun full_prompt, Notice (ErrorGeneratingResponse e)], st)
           | Inr final \<Rightarrow>
               ([ModelRun full_prompt],
                st\<lparr>history := history st @ [\<lparr>turn_role = Assistant, content = final\<rparr>]\<rparr>)))"

definition generation_step ::
    "collaborators \<Rightarrow> session_state \<Rightarrow> string \<Rightarrow> string \<Rightarrow> event list \<times> session_state" where
  "generation_step cs st prompt context =
     (case get_rag_agent cs of
        Inl e \<Rightarrow> ([Notice (ErrorGeneratingResponse e)], st)
      | Inr rag_agent \<Rightarrow>
          (if context \<noteq> [] then
             respond rag_agent st
               (''Context: '' @ context @ newline @ newline @ ''Original Question: '' @ prompt
                @ newline
                @ ''Please provide a comprehensive answer based on the available information.'')
           else
             (let (ev, st') = respond rag_agent st (''Original Question: '' @ prompt @ newline)
              in (Notice NoRelevantInformation # ev, st'))))"

subsection \<open>A whole turn\<close>

definition rag_turn ::
    "collaborators \<Rightarrow> session_state \<Rightarrow> string \<Rightarrow> event list \<times> session_state" where
  "rag_turn cs st prompt =
     (case search_strategy cs st prompt of
        (ev2, st2, Inl e) \<Rightarrow> (ev2 @ [Uncaught e], st2)
      | (ev2, st2, Inr (context, docs)) \<Rightarrow>
          (let (ev3, context') = web_search_step cs st2 prompt context;
               (ev4, st4) = generation_step cs st2 prompt context'
           in (ev2 @ ev3 @ ev4, st4)))"

text \<open>
  The simple mode, without retrieval: one \<^verbatim>\<open>try\<close> block around the whole turn.
  The web search agent is obtained once, when web search is enabled, and run when the
  search is forced.
\<close>

definition simple_turn ::
    "collaborators \<Rightarrow> session_state \<Rightarrow> string \<Rightarrow> event list \<times> session_state" where
  "simple_turn cs st prompt =
     (case get_rag_agent cs of
        Inl e \<Rightarrow> ([Notice (ErrorGeneratingResponse e)], st)
      | Inr rag_agent \<Rightarrow>
          (case (if use_web_search st then map_sum id Some (get_web_search_agent cs)
                 else Inr None) of
             Inl e \<Rightarrow> ([Notice (ErrorGeneratingResponse e)], st)
           | Inr web_search_agent \<Rightarrow>
               (let (ev3, context) =
                      (if force_web_search st \<and> web_search_agent \<noteq> None
                       then run_web_search cs prompt [] UsingWebSearchRequested
                       else ([], []));
                    full_prompt =
                      (if context \<noteq> [] then
                         ''Context: '' @ context @ newline @ newline @ ''Question: '' @ prompt
                         @ newline @ newline
                         @ ''Please provide a comprehensive answer based on the available information.''
                       else prompt);
                    (ev4, st4) = respond rag_agent st full_prompt
                in (ev3 @ ev4, st4))))"

text \<open>
  The handler of a submitted prompt: the user's turn is appended to the history, then
  the mode decides.
\<close>

definition chat_turn ::
    "collaborators \<Rightarrow> session_state \<Rightarrow> string \<Rightarrow> event list \<times> session_state" where
  "chat_turn cs st prompt =
     (let st1 = st\<lparr>history := history st @ [\<lparr>turn_role = User, content = prompt\<rparr>]\<rparr>
      in if rag_enabled st1 then rag_turn cs st1 prompt else simple_turn cs st1 prompt)"

text \<open>
  The call of the model on a prompt raises \<open>e\<close>: either \<open>run\<close> itself raises, or
  the stream it returns raises while the handler consumes it.
\<close>

definition raises :: "agent \<Rightarrow> string \<Rightarrow> py_error \<Rightarrow> bool" where
  "raises a p e =
     (case a p of
        Inl e' \<Rightarrow> e' = e
      | Inr (Stream chunks (Some e')) \<Rightarrow> e' = e
      | Inr other \<Rightarrow> False)"

section \<open>Properties of the batching helper\<close>

lemma range_from_nth:
  "i < length (range_from pos stop step) \<Longrightarrow> range_from pos stop step ! i = pos + i * step"
proof (induction pos stop step arbitrary: i rule: range_from.induct)
  case (1 pos stop step)
  show ?case
  proof (cases "0 < step \<and> pos < stop")
    case True
    then have unfold: "range_from pos stop step = pos # range_from (pos + step) stop step"
      by (simp add: range_from.simps [of pos stop step])
    show ?thesis
    proof (cases i)
      case 0
      then show ?thesis using unfold by simp
    next
      case (Suc j)
      with "1.prems" unfold have "j < length (range_from (pos + step) stop step)" by simp
      with "1.IH" True have "range_from (pos + step) stop step ! j = pos + step + j * step"
        by blast
      with Suc unfold show ?thesis by simp
    qed
  next
    case False
    then have "range_from pos stop step = []"
      by (simp add: range_from.simps [of pos stop step])
    with "1.prems" show ?thesis by simp
  qed
qed

lemma range_from_below: "p \<in> set (range_from pos stop step) \<Longrightarrow> p < stop"
proof (induction pos stop step rule: range_from.induct)
  case (1 pos stop step)
  show ?case
  proof (cases "0 < step \<and> pos < stop")
    case True
    then have "range_from pos stop step = pos # range_from (pos + step) stop step"
      by (simp add: range_from.simps [of pos stop step])
    with "1.prems" "1.IH" True show ?thesis by auto
  next
    case False
    then have "range_from pos stop step = []"
      by (simp add: range_from.simps [of pos stop step])
    with "1.prems" show ?thesis by simp
  qed
qed

lemma concat_slices:
  "0 < step \<Longrightarrow>
   concat (map (\<lambda>p. slice seq p (p + step)) (range_from pos (length seq) step)) = drop pos seq"
proof (induction pos "length seq" step rule: range_from.induct)
  case (1 pos step)
  show ?case
  proof (cases "pos < length seq")
    case True
    with "1.prems"
    have unfold: "range_from pos (length seq) step = pos # range_from (pos + step) (length seq) step"
      by (simp add: range_from.simps [of pos "length seq" step])
    from "1.hyps" "1.prems" True
    have "concat (map (\<lambda>p. slice seq p (p + step)) (range_from (pos + step) (length seq) step))
          = drop (pos + step) seq"
      by simp
    moreover have "take step (drop pos seq) @ drop (pos + step) seq = drop pos seq"
      using append_take_drop_id [of step "drop pos seq"] by (simp add: add.commute)
    ultimately show ?thesis
      using unfold by (simp add: slice_def)
  next
    case False
    then have "range_from pos (length seq) step = []"
      by (simp add: range_from.simps [of pos "length seq" step])
    with False show ?thesis by simp
  qed
qed

lemma slice_full_length:
  assumes "Suc i < length (range_from 0 (length seq) step)"
  shows "length (slice seq (range_from 0 (length seq) step ! i)
                   (range_from 0 (length seq) step ! i + step)) = step"
proof -
  let ?r = "range_from 0 (length seq) step"
  from assms have i: "i < length ?r" by simp
  have "?r ! Suc i \<in> set ?r" using assms by (rule nth_mem)
  then have "?r ! Suc i < length seq" by (rule range_from_below)
  moreover have "?r ! Suc i = Suc i * step" using range_from_nth [OF assms] by simp
  moreover have "?r ! i = i * step" using range_from_nth [OF i] by simp
  ultimately show ?thesis by (simp add: slice_def)
qed

text \<open>
  Claim C9. For every sequence and every batch size \<open>b > 0\<close>, \<open>chunker\<close> returns batches
  whose concatenation is the sequence itself, in order; every batch except possibly the
  last has exactly \<open>b\<close> elements, and no batch has more than \<open>b\<close>.
\<close>

theorem chunker_batches:
  assumes "0 < b"
  shows "\<exists>bs. chunker seq b = Inr bs \<and> concat bs = seq
           \<and> (\<forall>i. Suc i < length bs \<longrightarrow> length (bs ! i) = nat b)
           \<and> (\<forall>batch \<in> set bs. length batch \<le> nat b)"
proof -
  let ?r = "range_from 0 (length seq) (nat b)"
  let ?bs = "map (\<lambda>pos. slice seq pos (pos + nat b)) ?r"
  from assms have pos: "0 < nat b" by simp
  have ret: "chunker seq b = Inr ?bs" using assms by (simp add: chunker_def)
  have cat: "concat ?bs = seq" using concat_slices [OF pos, of seq 0] by simp
  have full: "\<forall>i. Suc i < length ?bs \<longrightarrow> length (?bs ! i) = nat b"
  proof (intro allI impI)
    fix i assume "Suc i < length ?bs"
    then have s: "Suc i < length ?r" by simp
    then have "i < length ?r" by simp
    then have "?bs ! i = slice seq (?r ! i) (?r ! i + nat b)" by simp
    with slice_full_length [OF s] show "length (?bs ! i) = nat b" by simp
  qed
  have bound: "\<forall>batch \<in> set ?bs. length batch \<le> nat b"
    by (auto simp: slice_def)
  from ret cat full bound show ?thesis by blast
qed

theorem chunker_batches_witness:
  "(0::int) < 2 \<and> chunker [1, 2, 3, 4, 5 :: nat] 2 = Inr [[1, 2], [3, 4], [5]]"
proof -
  have h: "(0::int) < 2" by simp
  from chunker_batches [OF h, of "[1, 2, 3, 4, 5 :: nat]"]
  obtain bs where "chunker [1, 2, 3, 4, 5 :: nat] 2 = Inr bs" by blast
  moreover have "chunker [1, 2, 3, 4, 5 :: nat] 2 = Inr [[1, 2], [3, 4], [5]]"
    by (simp add: chunker_def slice_def range_from.simps)
  ultimately show ?thesis by simp
qed

text \<open>The upsert batches of \<open>index_files\<close> are the batches of \<open>chunker\<close> for size 50.\<close>

lemma upsert_batches_chunker: "chunker records 50 = Inr (upsert_batches records)"
  by (simp add: chunker_def upsert_batches_def)

section \<open>Properties of the streaming response splitter\<close>

lemma consume_snoc: "consume (chunks @ [c]) = on_chunk (consume chunks) c"
  by (simp add: consume_def)

lemma think_match_Nil: "think_match [] = None"
  by (simp add: think_match_def think_open_def)

lemma consume_state:
  "consume chunks =
     \<lparr>accumulated_text = concat (map chunk_text chunks),
      reasoning_span = fst (extract_thinking (concat (map chunk_text chunks))),
      visible_text = snd (extract_thinking (concat (map chunk_text chunks)))\<rparr>"
proof (induction chunks rule: rev_induct)
  case Nil
  show ?case
    by (simp add: consume_def initial_stream_def extract_thinking_def think_match_Nil)
next
  case (snoc c chunks)
  then show ?case
    by (simp add: consume_snoc on_chunk_def Let_def split: prod.splits)
qed

lemma split_first_None:
  "split_first p s = None \<Longrightarrow> \<not> occurs_at p s i"
proof (induction s arbitrary: i)
  case Nil
  then show ?case by (auto simp: occurs_at_def split: if_splits)
next
  case (Cons c cs)
  from Cons.prems have here: "take (length p) (c # cs) \<noteq> p" and rest: "split_first p cs = None"
    by (auto split: if_splits option.splits)
  show ?case
  proof (cases i)
    case 0
    with here show ?thesis by (simp add: occurs_at_def)
  next
    case (Suc k)
    from Cons.IH [OF rest, of k] Suc show ?thesis by (simp add: occurs_at_def)
  qed
qed

lemma split_first_Some:
  "split_first p s = Some (before, after) \<Longrightarrow> s = before @ p @ after"
proof (induction s arbitrary: before)
  case Nil
  then show ?case by (simp split: if_splits)
next
  case (Cons c cs)
  show ?case
  proof (cases "take (length p) (c # cs) = p")
    case True
    with Cons.prems have "before = []" and "after = drop (length p) (c # cs)" by simp_all
    with append_take_drop_id [of "length p" "c # cs"] True show ?thesis by simp
  next
    case False
    with Cons.prems obtain b' where "split_first p cs = Some (b', after)" and "before = c # b'"
      by (auto split: option.splits)
    with Cons.IH show ?thesis by simp
  qed
qed

lemma split_first_minimal:
  "split_first p s = Some (before, after) \<Longrightarrow> i < length before \<Longrightarrow> \<not> occurs_at p s i"
proof (induction s arbitrary: before i)
  case Nil
  then show ?case by (simp split: if_splits)
next
  case (Cons c cs)
  show ?case
  proof (cases "take (length p) (c # cs) = p")
    case True
    with Cons.prems show ?thesis by simp
  next
    case False
    with Cons.prems obtain b' where sf: "split_first p cs = Some (b', after)" and b: "before = c # b'"
      by (auto split: option.splits)
    show ?thesis
    proof (cases i)
      case 0
      with False show ?thesis by (simp add: occurs_at_def)
    next
      case (Suc k)
      with Cons.prems b have "k < length b'" by simp
      from Cons.IH [OF sf this] Suc show ?thesis by (simp add: occurs_at_def)
    qed
  qed
qed

lemma occurs_at_bound:
  "occurs_at p s i \<Longrightarrow> p \<noteq> [] \<Longrightarrow> i + length p \<le> length s"
proof -
  assume o: "occurs_at p s i" and ne: "p \<noteq> []"
  from o have "length (take (length p) (drop i s)) = length p" by (simp add: occurs_at_def)
  then have "min (length p) (length s - i) = length p" by simp
  with ne show ?thesis by (cases p) auto
qed

lemma has_pair_iff:
  "has_pair T \<longleftrightarrow>
     (\<exists>i j. occurs_at think_open T i \<and> i + length think_open \<le> j \<and> occurs_at think_close T j)"
proof
  assume "has_pair T"
  then show "\<exists>i j. occurs_at think_open T i \<and> i + length think_open \<le> j \<and> occurs_at think_close T j"
    unfolding has_pair_def by blast
next
  assume "\<exists>i j. occurs_at think_open T i \<and> i + length think_open \<le> j \<and> occurs_at think_close T j"
  then obtain i j where o: "occurs_at think_open T i" and le: "i + length think_open \<le> j"
    and c: "occurs_at think_close T j" by blast
  from occurs_at_bound [OF c] have "j + length think_close \<le> length T"
    by (simp add: think_close_def)
  then have j: "j < length T" by (simp add: think_close_def)
  with le have i: "i < length T" by simp
  from i have "i \<in> set [0..<length T]" by simp
  moreover from j have "j \<in> set [0..<length T]" by simp
  ultimately show "has_pair T" unfolding has_pair_def using o le c by blast
qed

lemma think_match_None_iff: "think_match T = None \<longleftrightarrow> \<not> has_pair T"
proof
  assume none: "think_match T = None"
  show "\<not> has_pair T"
  proof
    assume "has_pair T"
    then obtain i j where o: "occurs_at think_open T i" and le: "i + length think_open \<le> j"
      and c: "occurs_at think_close T j" unfolding has_pair_iff by blast
    from o split_first_None have "split_first think_open T \<noteq> None" by blast
    then obtain pre rest where sf: "split_first think_open T = Some (pre, rest)" by auto
    from split_first_minimal [OF sf] o have "length pre \<le> i" by (meson not_le)
    from split_first_Some [OF sf] have T: "T = pre @ think_open @ rest" .
    have "drop j T = drop (j - (length pre + length think_open)) rest"
      using le \<open>length pre \<le> i\<close> by (subst T) simp
    with c have "occurs_at think_close rest (j - (length pre + length think_open))"
      by (simp add: occurs_at_def)
    with split_first_None have "split_first think_close rest \<noteq> None" by blast
    with sf none show False by (auto simp: think_match_def)
  qed
next
  assume np: "\<not> has_pair T"
  show "think_match T = None"
  proof (rule ccontr)
    assume "think_match T \<noteq> None"
    then obtain pre body post where "think_match T = Some (pre, body, post)" by auto
    then obtain rest where sf: "split_first think_open T = Some (pre, rest)"
      and sc: "split_first think_close rest = Some (body, post)"
      by (auto simp: think_match_def split: option.splits)
    from split_first_Some [OF sf] split_first_Some [OF sc]
    have T: "T = pre @ think_open @ body @ think_close @ post" by simp
    have "occurs_at think_open T (length pre)" by (subst T) (simp add: occurs_at_def)
    moreover have "occurs_at think_close T (length pre + length think_open + length body)"
      by (subst T) (simp add: occurs_at_def)
    ultimately have "has_pair T" unfolding has_pair_iff
      by (metis le_add1)
    with np show False by contradiction
  qed
qed

lemma all_spans_Nil_iff: "all_spans s = [] \<longleftrightarrow> think_match s = None"
  by (subst all_spans.simps) (simp split: option.splits)

lemma all_spans_first:
  "think_match s = Some (pre, body, post) \<Longrightarrow> all_spans s = body # all_spans post"
  by (subst all_spans.simps) simp

text \<open>
  Claim C3, as amended. After every processed fragment the accumulated text is the
  concatenation of the fragments' texts. When it contains a complete span,
  \<open>reasoning_span\<close> is the content of the first complete span, trimmed, and
  \<open>visible_text\<close> is the accumulated text with every complete span removed and the
  result trimmed; otherwise \<open>reasoning_span\<close> is absent and \<open>visible_text\<close> is
  the accumulated text unchanged.
\<close>

theorem stream_invariant:
  "accumulated_text (consume chunks) = concat (map chunk_text chunks) \<and>
   reasoning_span (consume chunks) =
     (case all_spans (concat (map chunk_text chunks)) of
        [] \<Rightarrow> None
      | body # later \<Rightarrow> Some (strip body)) \<and>
   visible_text (consume chunks) =
     (if has_pair (concat (map chunk_text chunks))
      then strip (remove_think (concat (map chunk_text chunks)))
      else concat (map chunk_text chunks))"
proof -
  let ?acc = "concat (map chunk_text chunks)"
  have st: "consume chunks =
     \<lparr>accumulated_text = ?acc, reasoning_span = fst (extract_thinking ?acc),
      visible_text = snd (extract_thinking ?acc)\<rparr>"
    by (rule consume_state)
  show ?thesis
  proof (cases "think_match ?acc")
    case None
    then have "\<not> has_pair ?acc" by (simp add: think_match_None_iff)
    moreover from None have "all_spans ?acc = []" by (simp add: all_spans_Nil_iff)
    ultimately show ?thesis using None st by (simp add: extract_thinking_def)
  next
    case (Some m)
    then obtain pre body post where m: "think_match ?acc = Some (pre, body, post)"
      by (cases m) auto
    then have "has_pair ?acc" using think_match_None_iff [of ?acc] by simp
    moreover from m have "all_spans ?acc = body # all_spans post" by (rule all_spans_first)
    ultimately show ?thesis using m st by (simp add: extract_thinking_def)
  qed
qed

theorem stream_invariant_witness:
  "consume [StrChunk ''<think> a</think> x'', OtherChunk, ContentChunk ''<think>b</think>''] =
     \<lparr>accumulated_text = ''<think> a</think> x<think>b</think>'',
      reasoning_span = Some ''a'', visible_text = ''x''\<rparr>
   \<and> has_pair ''<think> a</think> x<think>b</think>''
   \<and> consume [StrChunk ''<thi'', StrChunk ''nk>par''] =
     \<lparr>accumulated_text = ''<think>par'', reasoning_span = None, visible_text = ''<think>par''\<rparr>
   \<and> \<not> has_pair ''<think>par''"
proof -
  have a: "all_spans ''<think> a</think> x<think>b</think>'' = ['' a'', ''b'']"
    by code_simp
  have r: "remove_think ''<think> a</think> x<think>b</think>'' = '' x''"
    by code_simp
  have h: "has_pair ''<think> a</think> x<think>b</think>''"
    by code_simp
  have s: "strip '' a'' = ''a''" "strip '' x'' = ''x''"
    by (simp_all add: strip_def isspace_def)
  have a2: "all_spans ''<think>par'' = []"
    by code_simp
  have h2: "\<not> has_pair ''<think>par''"
    by code_simp
  from stream_invariant [of "[StrChunk ''<think> a</think> x'', OtherChunk, ContentChunk ''<think>b</think>'']"]
    stream_invariant [of "[StrChunk ''<thi'', StrChunk ''nk>par'']"]
  show ?thesis
    using a r h s a2 h2 by (simp add: stream_state.equality)
qed

text \<open>
  Claim C3 as stated fails: with two complete spans the handler keeps only the first one
  as \<open>reasoning_span\<close>, and it trims the visible text.
\<close>

theorem reasoning_concatenation_counterexample:
  "visible_text (consume [StrChunk ''<think>a</think> x<think>b</think>''])
     \<noteq> remove_think (accumulated_text (consume [StrChunk ''<think>a</think> x<think>b</think>'']))
   \<and> reasoning_span (consume [StrChunk ''<think>a</think> x<think>b</think>''])
     \<noteq> spec_reasoning_span (accumulated_text (consume [StrChunk ''<think>a</think> x<think>b</think>'']))"
  by code_simp

text \<open>
  Claim C4 as stated fails: for the unterminated text the visible text is not empty.
\<close>

theorem unterminated_visible_counterexample:
  "visible_text (consume [StrChunk ''<think>partial'']) \<noteq> ''''
   \<and> snd (extract_thinking ''<think>partial'') \<noteq> ''''"
  by code_simp

text \<open>
  Claim C4, as amended. For the accumulated text \<open><think>partial\<close>, an opening tag
  with no closing tag, the splitter leaves the text as it is: \<open>visible_text\<close> is
  \<open><think>partial\<close> and \<open>reasoning_span\<close> is absent, both after the fragment
  and in the final extraction.
\<close>

theorem unterminated_span_kept:
  "consume [StrChunk ''<think>partial''] =
     \<lparr>accumulated_text = ''<think>partial'', reasoning_span = None,
      visible_text = ''<think>partial''\<rparr>
   \<and> extract_thinking ''<think>partial'' = (None, ''<think>partial'')"
  by code_simp

text \<open>
  Claim C5. For the accumulated text \<open><think>step one</think>Answer: 42\<close> the
  splitter gives the reasoning span \<open>step one\<close> and the visible text
  \<open>Answer: 42\<close>, in the final extraction and when the text arrives in fragments.
\<close>

theorem step_one_scenario:
  "extract_thinking ''<think>step one</think>Answer: 42'' = (Some ''step one'', ''Answer: 42'')
   \<and> consume [StrChunk ''<think>step'', ContentChunk '' one</thi'', StrChunk ''nk>Answer: 42''] =
     \<lparr>accumulated_text = ''<think>step one</think>Answer: 42'',
      reasoning_span = Some ''step one'', visible_text = ''Answer: 42''\<rparr>"
  by code_simp

text \<open>
  Claim C6. A text with no complete delimiter pair passes through the splitter
  unchanged: the visible text is the text itself and the reasoning span is absent, in the
  final extraction and for every way of delivering the text in fragments.
\<close>

theorem no_pair_roundtrip:
  assumes "\<not> has_pair T"
  shows "extract_thinking T = (None, T) \<and>
         (\<forall>chunks. concat (map chunk_text chunks) = T \<longrightarrow>
            visible_text (consume chunks) = T \<and> reasoning_span (consume chunks) = None)"
proof -
  from assms have none: "think_match T = None" by (simp add: think_match_None_iff)
  then have e: "extract_thinking T = (None, T)" by (simp add: extract_thinking_def)
  moreover have "\<forall>chunks. concat (map chunk_text chunks) = T \<longrightarrow>
            visible_text (consume chunks) = T \<and> reasoning_span (consume chunks) = None"
  proof (intro allI impI)
    fix chunks assume "concat (map chunk_text chunks) = T"
    with e consume_state [of chunks]
    show "visible_text (consume chunks) = T \<and> reasoning_span (consume chunks) = None" by simp
  qed
  ultimately show ?thesis by blast
qed

theorem no_pair_roundtrip_witness:
  "\<not> has_pair ''</think>plain <think>'' \<and>
   extract_thinking ''</think>plain <think>'' = (None, ''</think>plain <think>'') \<and>
   visible_text (consume [StrChunk ''</think>pl'', ContentChunk ''ain <think>'']) = ''</think>plain <think>'' \<and>
   reasoning_span (consume [StrChunk ''</think>pl'', ContentChunk ''ain <think>'']) = None"
proof -
  have h: "\<not> has_pair ''</think>plain <think>''" by code_simp
  have c: "concat (map chunk_text [StrChunk ''</think>pl'', ContentChunk ''ain <think>'']) = ''</think>plain <think>''"
    by simp
  from no_pair_roundtrip [OF h] c h show ?thesis by blast
qed

section \<open>Properties of the retrieval\<close>

lemma to_retrieved_score: "doc_score (to_retrieved m) = score m"
  by (simp add: to_retrieved_def)

lemma retrieve_matches:
  "get_embedding self query = Inr v \<Longrightarrow>
   index_query self (namespace self) v top_k = Inr (Some matches) \<Longrightarrow>
   retrieve self query top_k t = map to_retrieved (filter (\<lambda>m. t \<le> score m) matches)"
  by (simp add: retrieve_def)

text \<open>
  Claim C2. For every threshold \<open>t\<close> and every match that the index returns, the
  match is among the results of \<open>retrieve\<close> if and only if its score is at least
  \<open>t\<close>; a score equal to the threshold is included.
\<close>

theorem threshold_inclusive:
  assumes "get_embedding self query = Inr v"
    and "index_query self (namespace self) v top_k = Inr (Some matches)"
    and "m \<in> set matches"
  shows "to_retrieved m \<in> set (retrieve self query top_k t) \<longleftrightarrow> t \<le> score m"
proof
  assume "to_retrieved m \<in> set (retrieve self query top_k t)"
  then have "to_retrieved m \<in> to_retrieved ` {m' \<in> set matches. t \<le> score m'}"
    using retrieve_matches [OF assms(1,2)] by simp
  then obtain m' where "t \<le> score m'" and "to_retrieved m = to_retrieved m'"
    by blast
  then show "t \<le> score m" using to_retrieved_score [of m] to_retrieved_score [of m'] by simp
next
  assume "t \<le> score m"
  with assms(3) have "m \<in> {m' \<in> set matches. t \<le> score m'}" by simp
  then have "to_retrieved m \<in> to_retrieved ` {m' \<in> set matches. t \<le> score m'}"
    by (rule imageI)
  then show "to_retrieved m \<in> set (retrieve self query top_k t)"
    using retrieve_matches [OF assms(1,2)] by simp
qed

theorem threshold_inclusive_witness:
  "to_retrieved \<lparr>match_id = ''b'', score = 0.7, match_metadata = [(''text'', ''beta'')]\<rparr>
     \<in> set (retrieve
         \<lparr>namespace = ''rag-namespace'', get_embedding = (\<lambda>q. Inr [1]),
          index_query = (\<lambda>ns v k. Inr (Some
            [\<lparr>match_id = ''b'', score = 0.7, match_metadata = [(''text'', ''beta'')]\<rparr>,
             \<lparr>match_id = ''c'', score = 0.5, match_metadata = [(''text'', ''gamma'')]\<rparr>]))\<rparr>
         ''q'' 5 0.7)
   \<and> to_retrieved \<lparr>match_id = ''c'', score = 0.5, match_metadata = [(''text'', ''gamma'')]\<rparr>
     \<notin> set (retrieve
         \<lparr>namespace = ''rag-namespace'', get_embedding = (\<lambda>q. Inr [1]),
          index_query = (\<lambda>ns v k. Inr (Some
            [\<lparr>match_id = ''b'', score = 0.7, match_metadata = [(''text'', ''beta'')]\<rparr>,
             \<lparr>match_id = ''c'', score = 0.5, match_metadata = [(''text'', ''gamma'')]\<rparr>]))\<rparr>
         ''q'' 5 0.7)"
proof -
  let ?b = "\<lparr>match_id = ''b'', score = 0.7, match_metadata = [(''text'', ''beta'')]\<rparr>"
  let ?c = "\<lparr>match_id = ''c'', score = 0.5, match_metadata = [(''text'', ''gamma'')]\<rparr>"
  let ?ix = "\<lparr>namespace = ''rag-namespace'', get_embedding = (\<lambda>q. Inr [1]),
              index_query = (\<lambda>ns v k. Inr (Some [?b, ?c]))\<rparr>"
  have e: "get_embedding ?ix ''q'' = Inr [1]" by simp
  have q: "index_query ?ix (namespace ?ix) [1] 5 = Inr (Some [?b, ?c])" by simp
  have b: "?b \<in> set [?b, ?c]" by simp
  have c: "?c \<in> set [?b, ?c]" by simp
  have sb: "(0.7::real) \<le> score ?b" by simp
  have sc: "\<not> (0.7::real) \<le> score ?c" by simp
  from threshold_inclusive [OF e q b, of "0.7"] sb
  have 1: "to_retrieved ?b \<in> set (retrieve ?ix ''q'' 5 0.7)" by (rule iffD2)
  from threshold_inclusive [OF e q c, of "0.7"] sc
  have 2: "to_retrieved ?c \<notin> set (retrieve ?ix ''q'' 5 0.7)" by blast
  from 1 2 show ?thesis by (rule conjI)
qed

text \<open>
  Claim C10. Without a vector store \<open>check_document_relevance\<close> returns
  \<open>(False, [])\<close> and calls no collaborator. With a store, whenever it returns, the
  list is the one the retriever gave for \<open>k = 5\<close> and the threshold, and the boolean
  is true exactly when that list is not empty.
\<close>

theorem check_document_relevance_result:
  "check_document_relevance query None threshold = ([], Inr (False, [])) \<and>
   (\<forall>vs ev b docs.
      check_document_relevance query (Some vs) threshold = (ev, Inr (b, docs)) \<longrightarrow>
        vs 5 threshold query = Inr docs \<and> (b \<longleftrightarrow> docs \<noteq> []))"
proof (intro conjI allI impI)
  show "check_document_relevance query None threshold = ([], Inr (False, []))"
    by (simp add: check_document_relevance_def)
next
  fix vs :: vector_store and ev b docs
  assume r: "check_document_relevance query (Some vs) threshold = (ev, Inr (b, docs))"
  show "vs 5 threshold query = Inr docs"
  proof (cases "vs 5 threshold query")
    case (Inl e)
    with r show ?thesis by (simp add: check_document_relevance_def)
  next
    case (Inr ds)
    with r show ?thesis by (simp add: check_document_relevance_def)
  qed
next
  fix vs :: vector_store and ev b docs
  assume r: "check_document_relevance query (Some vs) threshold = (ev, Inr (b, docs))"
  show "b \<longleftrightarrow> docs \<noteq> []"
  proof (cases "vs 5 threshold query")
    case (Inl e)
    with r show ?thesis by (simp add: check_document_relevance_def)
  next
    case (Inr ds)
    with r show ?thesis by (auto simp: check_document_relevance_def)
  qed
qed

theorem check_document_relevance_result_witness:
  "check_document_relevance ''q'' None 1 = ([], Inr (False, []))
   \<and> check_document_relevance ''q''
       (Some (\<lambda>k t q. Inr [\<lparr>page_content = ''alpha'', metadata = []\<rparr>])) 1
     = ([SecondaryRetrieve ''q'' 5 1], Inr (True, [\<lparr>page_content = ''alpha'', metadata = []\<rparr>]))
   \<and> (True \<longleftrightarrow> [\<lparr>page_content = ''alpha'', metadata = []\<rparr>] \<noteq> [])"
proof -
  let ?d = "\<lparr>page_content = ''alpha'', metadata = []\<rparr>"
  let ?vs = "(\<lambda>k t q. Inr [?d]) :: vector_store"
  note inst = check_document_relevance_result [of "''q''" 1]
  from inst have none: "check_document_relevance ''q'' None 1 = ([], Inr (False, []))"
    by (rule conjunct1)
  have run: "check_document_relevance ''q'' (Some ?vs) 1
               = ([SecondaryRetrieve ''q'' 5 1], Inr (True, [?d]))"
    unfolding check_document_relevance_def by simp
  from inst have
    "\<forall>vs ev b docs.
      check_document_relevance ''q'' (Some vs) 1 = (ev, Inr (b, docs)) \<longrightarrow>
        vs 5 1 ''q'' = Inr docs \<and> (b \<longleftrightarrow> docs \<noteq> [])"
    by (rule conjunct2)
  then have "check_document_relevance ''q'' (Some ?vs) 1
               = ([SecondaryRetrieve ''q'' 5 1], Inr (True, [?d])) \<longrightarrow>
             ?vs 5 1 ''q'' = Inr [?d] \<and> (True \<longleftrightarrow> [?d] \<noteq> [])"
    by (elim allE [where x = "?vs"] allE [where x = "[SecondaryRetrieve ''q'' 5 1]"]
             allE [where x = True] allE [where x = "[?d]"])
  with run have "?vs 5 1 ''q'' = Inr [?d] \<and> (True \<longleftrightarrow> [?d] \<noteq> [])"
    by (rule rev_mp)
  then have "True \<longleftrightarrow> [?d] \<noteq> []" by (rule conjunct2)
  with none run show ?thesis by (intro conjI)
qed

section \<open>Properties of the chat handler\<close>

lemma respond_raises:
  assumes "raises rag_agent p e"
  shows "respond rag_agent st p = ([ModelRun p, Notice (ErrorGeneratingResponse e)], st)"
proof (cases "rag_agent p")
  case (Inl e')
  with assms show ?thesis by (simp add: raises_def respond_def)
next
  case (Inr response)
  show ?thesis
  proof (cases response)
    case (Stream chunks err)
    show ?thesis
    proof (cases err)
      case None
      with assms Inr Stream show ?thesis by (simp add: raises_def)
    next
      case (Some e')
      with assms Inr Stream show ?thesis by (simp add: raises_def respond_def)
    qed
  next
    case (WithContent s)
    with assms Inr show ?thesis by (simp add: raises_def)
  next
    case (Opaque s)
    with assms Inr show ?thesis by (simp add: raises_def)
  qed
qed

text \<open>The events of \<open>respond\<close> name the prompt that was passed to the model, and no other.\<close>

lemma respond_calls_model: "ModelRun p \<in> set (fst (respond rag_agent st p))"
  by (simp add: respond_def split: sum.splits)

lemma respond_calls_only:
  "ModelRun q \<in> set (fst (respond rag_agent st p)) \<Longrightarrow> q = p"
  by (auto simp: respond_def split: sum.splits)

lemma respond_failed:
  assumes "\<forall>q. ModelRun q \<in> set (fst (respond rag_agent st p)) \<longrightarrow> (\<exists>e. raises rag_agent q e)"
  shows "snd (respond rag_agent st p) = st"
    and "\<forall>q. ModelRun q \<in> set (fst (respond rag_agent st p)) \<longrightarrow>
           (\<exists>e. raises rag_agent q e \<and>
                Notice (ErrorGeneratingResponse e) \<in> set (fst (respond rag_agent st p)))"
proof -
  from assms respond_calls_model [of p rag_agent st] obtain e where e: "raises rag_agent p e"
    by blast
  then have r: "respond rag_agent st p = ([ModelRun p, Notice (ErrorGeneratingResponse e)], st)"
    by (rule respond_raises)
  from r show "snd (respond rag_agent st p) = st" by simp
  show "\<forall>q. ModelRun q \<in> set (fst (respond rag_agent st p)) \<longrightarrow>
           (\<exists>e. raises rag_agent q e \<and>
                Notice (ErrorGeneratingResponse e) \<in> set (fst (respond rag_agent st p)))"
  proof (intro allI impI)
    fix q assume "ModelRun q \<in> set (fst (respond rag_agent st p))"
    then have "q = p" by (rule respond_calls_only)
    with e r show "\<exists>e. raises rag_agent q e \<and>
                Notice (ErrorGeneratingResponse e) \<in> set (fst (respond rag_agent st p))"
      by auto
  qed
qed

lemma generation_step_respond:
  assumes "get_rag_agent cs = Inr rag_agent"
  shows "\<exists>p pre. fst (generation_step cs st prompt ctx) = pre @ fst (respond rag_agent st p)
           \<and> snd (generation_step cs st prompt ctx) = snd (respond rag_agent st p)
           \<and> (\<forall>q. ModelRun q \<notin> set pre)"
proof (cases "ctx \<noteq> []")
  case True
  let ?p = "''Context: '' @ ctx @ newline @ newline @ ''Original Question: '' @ prompt
                @ newline
                @ ''Please provide a comprehensive answer based on the available information.''"
  from True assms have "generation_step cs st prompt ctx = respond rag_agent st ?p"
    by (simp add: generation_step_def)
  then have "fst (generation_step cs st prompt ctx) = [] @ fst (respond rag_agent st ?p)
           \<and> snd (generation_step cs st prompt ctx) = snd (respond rag_agent st ?p)
           \<and> (\<forall>q. ModelRun q \<notin> set [])" by simp
  then show ?thesis by blast
next
  case False
  let ?p = "''Original Question: '' @ prompt @ newline"
  from False assms
  have "fst (generation_step cs st prompt ctx)
          = [Notice NoRelevantInformation] @ fst (respond rag_agent st ?p)
        \<and> snd (generation_step cs st prompt ctx) = snd (respond rag_agent st ?p)
        \<and> (\<forall>q. ModelRun q \<notin> set [Notice NoRelevantInformation])"
    by (simp add: generation_step_def split: prod.splits)
  then show ?thesis by blast
qed

lemma primary_search_history:
  "primary_search cs st query = (ev, st', r) \<Longrightarrow> history st' = history st"
  by (auto simp: primary_search_def Let_def split: option.splits sum.splits)

lemma search_strategy_history:
  assumes "search_strategy cs st query = (ev, st', r)"
  shows "history st' = history st"
proof (cases "force_web_search st")
  case True
  with assms show ?thesis by (simp add: search_strategy_def)
next
  case False
  obtain ev0 st0 r0 where p: "primary_search cs st query = (ev0, st0, r0)"
    by (cases "primary_search cs st query") auto
  then have h: "history st0 = history st" by (rule primary_search_history)
  from assms False p have "st' = st0"
    by (auto simp: search_strategy_def Let_def split: sum.splits option.splits prod.splits)
  with h show ?thesis by simp
qed

lemma search_strategy_no_model:
  "search_strategy cs st query = (ev, st', r) \<Longrightarrow> ModelRun p \<notin> set ev"
  by (auto simp: search_strategy_def primary_search_def use_docs_def Let_def
           split: if_splits sum.splits option.splits prod.splits)

lemma run_web_search_no_model:
  "ModelRun p \<notin> set (fst (run_web_search cs query ctx used))"
  by (auto simp: run_web_search_def split: sum.splits)

lemma web_search_step_no_model:
  "ModelRun p \<notin> set (fst (web_search_step cs st query ctx))"
  using run_web_search_no_model by (simp add: web_search_step_def)

lemma failed_after_prefix:
  assumes pre: "\<forall>q. ModelRun q \<notin> set pre"
    and f: "\<forall>q. ModelRun q \<in> set (pre @ fst (respond rag_agent st p)) \<longrightarrow>
               (\<exists>e. raises rag_agent q e)"
  shows "snd (respond rag_agent st p) = st \<and>
         (\<forall>q. ModelRun q \<in> set (pre @ fst (respond rag_agent st p)) \<longrightarrow>
            (\<exists>e. raises rag_agent q e \<and>
                 Notice (ErrorGeneratingResponse e) \<in> set (pre @ fst (respond rag_agent st p))))"
proof -
  from f have f': "\<forall>q. ModelRun q \<in> set (fst (respond rag_agent st p)) \<longrightarrow>
               (\<exists>e. raises rag_agent q e)" by simp
  from respond_failed(1) [OF f'] have s: "snd (respond rag_agent st p) = st" .
  have "\<forall>q. ModelRun q \<in> set (pre @ fst (respond rag_agent st p)) \<longrightarrow>
            (\<exists>e. raises rag_agent q e \<and>
                 Notice (ErrorGeneratingResponse e) \<in> set (pre @ fst (respond rag_agent st p)))"
  proof (intro allI impI)
    fix q assume "ModelRun q \<in> set (pre @ fst (respond rag_agent st p))"
    with pre have "ModelRun q \<in> set (fst (respond rag_agent st p))" by simp
    with respond_failed(2) [OF f'] obtain e where "raises rag_agent q e"
      and "Notice (ErrorGeneratingResponse e) \<in> set (fst (respond rag_agent st p))" by blast
    then show "\<exists>e. raises rag_agent q e \<and>
                 Notice (ErrorGeneratingResponse e) \<in> set (pre @ fst (respond rag_agent st p))"
      by auto
  qed
  with s show ?thesis by (rule conjI)
qed

lemma rag_turn_failed:
  assumes a: "get_rag_agent cs = Inr rag_agent"
    and f: "\<forall>q. ModelRun q \<in> set (fst (rag_turn cs st prompt)) \<longrightarrow> (\<exists>e. raises rag_agent q e)"
  shows "history (snd (rag_turn cs st prompt)) = history st \<and>
         (\<forall>q. ModelRun q \<in> set (fst (rag_turn cs st prompt)) \<longrightarrow>
            (\<exists>e. raises rag_agent q e \<and>
                 Notice (ErrorGeneratingResponse e) \<in> set (fst (rag_turn cs st prompt))))"
proof -
  obtain ev2 st2 r where s: "search_strategy cs st prompt = (ev2, st2, r)"
    by (cases "search_strategy cs st prompt") auto
  then have h: "history st2 = history st" by (rule search_strategy_history)
  from s have n2: "\<forall>q. ModelRun q \<notin> set ev2" using search_strategy_no_model by blast
  show ?thesis
  proof (cases r)
    case (Inl e)
    with s have t: "rag_turn cs st prompt = (ev2 @ [Uncaught e], st2)"
      by (simp add: rag_turn_def)
    with n2 h show ?thesis by simp
  next
    case (Inr cd)
    obtain ctx docs where cd: "cd = (ctx, docs)" by (cases cd) auto
    obtain ev3 ctx' where w: "web_search_step cs st2 prompt ctx = (ev3, ctx')"
      by (cases "web_search_step cs st2 prompt ctx") auto
    from web_search_step_no_model [of _ cs st2 prompt ctx] w
    have n3: "\<forall>q. ModelRun q \<notin> set ev3" by simp
    from generation_step_respond [OF a, of st2 prompt ctx'] obtain p pre
      where g1: "fst (generation_step cs st2 prompt ctx') = pre @ fst (respond rag_agent st2 p)"
        and g2: "snd (generation_step cs st2 prompt ctx') = snd (respond rag_agent st2 p)"
        and n4: "\<forall>q. ModelRun q \<notin> set pre" by blast
    obtain ev4 st4 where g: "generation_step cs st2 prompt ctx' = (ev4, st4)"
      by (cases "generation_step cs st2 prompt ctx'") auto
    from s Inr cd w g have t: "rag_turn cs st prompt = (ev2 @ ev3 @ ev4, st4)"
      by (simp add: rag_turn_def)
    from t g g1
    have t1: "fst (rag_turn cs st prompt) = (ev2 @ ev3 @ pre) @ fst (respond rag_agent st2 p)"
      by simp
    from t g g2 have t2: "snd (rag_turn cs st prompt) = snd (respond rag_agent st2 p)"
      by simp
    from n2 n3 n4 have n: "\<forall>q. ModelRun q \<notin> set (ev2 @ ev3 @ pre)" by simp
    from f t1 have f': "\<forall>q. ModelRun q \<in> set ((ev2 @ ev3 @ pre) @ fst (respond rag_agent st2 p))
                          \<longrightarrow> (\<exists>e. raises rag_agent q e)" by simp
    from failed_after_prefix [OF n f'] t1 t2 h show ?thesis by simp
  qed
qed

lemma simple_turn_failed:
  assumes a: "get_rag_agent cs = Inr rag_agent"
    and f: "\<forall>q. ModelRun q \<in> set (fst (simple_turn cs st prompt)) \<longrightarrow>
              (\<exists>e. raises rag_agent q e)"
  shows "history (snd (simple_turn cs st prompt)) = history st \<and>
         (\<forall>q. ModelRun q \<in> set (fst (simple_turn cs st prompt)) \<longrightarrow>
            (\<exists>e. raises rag_agent q e \<and>
                 Notice (ErrorGeneratingResponse e) \<in> set (fst (simple_turn cs st prompt))))"
proof -
  let ?w = "if use_web_search st then map_sum id Some (get_web_search_agent cs) else Inr None"
  show ?thesis
  proof (cases ?w)
    case (Inl e)
    with a have "simple_turn cs st prompt = ([Notice (ErrorGeneratingResponse e)], st)"
      by (simp add: simple_turn_def)
    then show ?thesis by simp
  next
    case (Inr web_search_agent)
    let ?s = "if force_web_search st \<and> web_search_agent \<noteq> None
              then run_web_search cs prompt [] UsingWebSearchRequested else ([], [])"
    obtain ev3 ctx where s3: "?s = (ev3, ctx)" by (cases ?s) auto
    have n3: "\<forall>q. ModelRun q \<notin> set ev3"
    proof
      fix q
      from s3 run_web_search_no_model [of q cs prompt "[]" UsingWebSearchRequested]
      show "ModelRun q \<notin> set ev3" by (auto split: if_splits)
    qed
    let ?fp = "if ctx \<noteq> [] then
                 ''Context: '' @ ctx @ newline @ newline @ ''Question: '' @ prompt
                 @ newline @ newline
                 @ ''Please provide a comprehensive answer based on the available information.''
               else prompt"
    obtain ev4 st4 where r: "respond rag_agent st ?fp = (ev4, st4)"
      by (cases "respond rag_agent st ?fp") auto
    from a Inr s3 r have t: "simple_turn cs st prompt = (ev3 @ ev4, st4)"
      by (simp add: simple_turn_def Let_def)
    from t r have t1: "fst (simple_turn cs st prompt) = ev3 @ fst (respond rag_agent st ?fp)"
      by simp
    from t r have t2: "snd (simple_turn cs st prompt) = snd (respond rag_agent st ?fp)"
      by simp
    from f t1 have f': "\<forall>q. ModelRun q \<in> set (ev3 @ fst (respond rag_agent st ?fp))
                          \<longrightarrow> (\<exists>e. raises rag_agent q e)" by simp
    from failed_after_prefix [OF n3 f'] t1 t2 show ?thesis by simp
  qed
qed

text \<open>
  Claim C8. In a turn where every call of the model that the handler makes raises, either
  in \<open>run\<close> itself or while the returned stream is consumed, the generation step
  shows the error and leaves the session as it was: at the end of the turn the history
  holds the user's turn and no assistant turn, and the error notice of that call is among
  the events. Nothing is assumed about prompts that the handler does not pass to the
  model.
\<close>

theorem failed_generation_keeps_history:
  assumes "get_rag_agent cs = Inr rag_agent"
    and "\<forall>p. ModelRun p \<in> set (fst (chat_turn cs st prompt)) \<longrightarrow> (\<exists>e. raises rag_agent p e)"
  shows "history (snd (chat_turn cs st prompt))
           = history st @ [\<lparr>turn_role = User, content = prompt\<rparr>]
       \<and> (\<forall>p. ModelRun p \<in> set (fst (chat_turn cs st prompt)) \<longrightarrow>
            (\<exists>e. raises rag_agent p e \<and>
                 Notice (ErrorGeneratingResponse e) \<in> set (fst (chat_turn cs st prompt))))
       \<and> (\<forall>p e s. raises rag_agent p e \<longrightarrow>
            respond rag_agent s p = ([ModelRun p, Notice (ErrorGeneratingResponse e)], s))"
proof -
  let ?st1 = "st\<lparr>history := history st @ [\<lparr>turn_role = User, content = prompt\<rparr>]\<rparr>"
  have h1: "history ?st1 = history st @ [\<lparr>turn_role = User, content = prompt\<rparr>]" by simp
  have core: "\<forall>p e s. raises rag_agent p e \<longrightarrow>
            respond rag_agent s p = ([ModelRun p, Notice (ErrorGeneratingResponse e)], s)"
    using respond_raises by blast
  show ?thesis
  proof (cases "rag_enabled st")
    case True
    then have t: "chat_turn cs st prompt = rag_turn cs ?st1 prompt"
      by (simp add: chat_turn_def Let_def)
    with assms(2)
    have f: "\<forall>p. ModelRun p \<in> set (fst (rag_turn cs ?st1 prompt)) \<longrightarrow> (\<exists>e. raises rag_agent p e)"
      by simp
    from rag_turn_failed [OF assms(1) f] t h1 core show ?thesis by simp
  next
    case False
    then have t: "chat_turn cs st prompt = simple_turn cs ?st1 prompt"
      by (simp add: chat_turn_def Let_def)
    with assms(2)
    have f: "\<forall>p. ModelRun p \<in> set (fst (simple_turn cs ?st1 prompt)) \<longrightarrow>
               (\<exists>e. raises rag_agent p e)"
      by simp
    from simple_turn_failed [OF assms(1) f] t h1 core show ?thesis by simp
  qed
qed

theorem failed_generation_keeps_history_witness:
  "chat_turn
      \<lparr>new_pinecone_indexer = Inl (CollaboratorError ''no index''),
       get_web_search_agent = Inl (CollaboratorError ''no key''),
       get_rag_agent = Inr (\<lambda>p. if p = ''Original Question: why?'' @ newline
          then Inr (Stream [StrChunk ''<think>par''] (Some (CollaboratorError ''timeout'')))
          else Inr (Stream [StrChunk ''stale answer''] None))\<rparr>
      \<lparr>rag_enabled = True, force_web_search = True, use_web_search = False, exa_api_key = [],
       similarity_threshold = 1, session_indexer = None, session_vector_store = None,
       history = [\<lparr>turn_role = User, content = ''hello''\<rparr>,
                  \<lparr>turn_role = Assistant, content = ''hi''\<rparr>]\<rparr>
      ''why?''
   = ([Notice NoRelevantInformation, ModelRun (''Original Question: why?'' @ newline),
       Notice (ErrorGeneratingResponse (CollaboratorError ''timeout''))],
      \<lparr>rag_enabled = True, force_web_search = True, use_web_search = False, exa_api_key = [],
       similarity_threshold = 1, session_indexer = None, session_vector_store = None,
       history = [\<lparr>turn_role = User, content = ''hello''\<rparr>,
                  \<lparr>turn_role = Assistant, content = ''hi''\<rparr>,
                  \<lparr>turn_role = User, content = ''why?''\<rparr>]\<rparr>)"
proof -
  let ?ag = "(\<lambda>p. if p = ''Original Question: why?'' @ newline
          then Inr (Stream [StrChunk ''<think>par''] (Some (CollaboratorError ''timeout'')))
          else Inr (Stream [StrChunk ''stale answer''] None)) :: agent"
  let ?cs = "\<lparr>new_pinecone_indexer = Inl (CollaboratorError ''no index''),
       get_web_search_agent = Inl (CollaboratorError ''no key''),
       get_rag_agent = Inr ?ag\<rparr>"
  let ?st = "\<lparr>rag_enabled = True, force_web_search = True, use_web_search = False, exa_api_key = [],
       similarity_threshold = 1, session_indexer = None, session_vector_store = None,
       history = [\<lparr>turn_role = User, content = ''hello''\<rparr>,
                  \<lparr>turn_role = Assistant, content = ''hi''\<rparr>]\<rparr>"
  let ?p0 = "''Original Question: why?'' @ newline"
  let ?ev = "[Notice NoRelevantInformation, ModelRun ?p0,
              Notice (ErrorGeneratingResponse (CollaboratorError ''timeout''))]"
  have a: "get_rag_agent ?cs = Inr ?ag" by simp
  have ev: "fst (chat_turn ?cs ?st ''why?'') = ?ev"
    by (simp add: chat_turn_def rag_turn_def search_strategy_def web_search_step_def
          generation_step_def respond_def Let_def)
  have r: "raises ?ag ?p0 (CollaboratorError ''timeout'')" by (simp add: raises_def)
  have f: "\<forall>p. ModelRun p \<in> set (fst (chat_turn ?cs ?st ''why?'')) \<longrightarrow> (\<exists>e. raises ?ag p e)"
  proof (intro allI impI)
    fix p assume "ModelRun p \<in> set (fst (chat_turn ?cs ?st ''why?''))"
    with ev have "p = ?p0" by simp
    with r show "\<exists>e. raises ?ag p e" by blast
  qed
  from failed_generation_keeps_history [OF a f]
  have h: "history (snd (chat_turn ?cs ?st ''why?''))
           = history ?st @ [\<lparr>turn_role = User, content = ''why?''\<rparr>]"
    by (rule conjunct1)
  have rest: "snd (chat_turn ?cs ?st ''why?'')
                = (snd (chat_turn ?cs ?st ''why?''))\<lparr>history := history (snd (chat_turn ?cs ?st ''why?''))\<rparr>"
    by simp
  have other: "rag_enabled (snd (chat_turn ?cs ?st ''why?'')) = True
      \<and> force_web_search (snd (chat_turn ?cs ?st ''why?'')) = True
      \<and> use_web_search (snd (chat_turn ?cs ?st ''why?'')) = False
      \<and> exa_api_key (snd (chat_turn ?cs ?st ''why?'')) = []
      \<and> similarity_threshold (snd (chat_turn ?cs ?st ''why?'')) = 1
      \<and> session_indexer (snd (chat_turn ?cs ?st ''why?'')) = None
      \<and> session_vector_store (snd (chat_turn ?cs ?st ''why?'')) = None"
    by (simp add: chat_turn_def rag_turn_def search_strategy_def web_search_step_def
          generation_step_def respond_def Let_def)
  from h other have "snd (chat_turn ?cs ?st ''why?'')
     = \<lparr>rag_enabled = True, force_web_search = True, use_web_search = False, exa_api_key = [],
       similarity_threshold = 1, session_indexer = None, session_vector_store = None,
       history = [\<lparr>turn_role = User, content = ''hello''\<rparr>,
                  \<lparr>turn_role = Assistant, content = ''hi''\<rparr>,
                  \<lparr>turn_role = User, content = ''why?''\<rparr>]\<rparr>"
    by (simp add: session_state.equality)
  with ev show ?thesis by (simp add: prod_eq_iff)
qed

text \<open>With a context that is not empty and no forced search, Step 3 does nothing.\<close>

lemma context_suppresses_web_search:
  "\<not> force_web_search st \<Longrightarrow> context \<noteq> [] \<Longrightarrow>
   web_search_step cs st query context = ([], context)"
  by (simp add: web_search_step_def)

text \<open>
  Claim C1 says that a turn without forced web search whose primary query returns a
  result at or above the threshold builds the context from the documents and does not
  call the web search. The handler decides on the emptiness of the joined context, not
  of the document list: a single passing match whose metadata has no \<open>text\<close> entry
  gives one document with empty content, the context is empty, and with web search
  enabled and a key present the web search runs and supplies the context.
\<close>

theorem empty_text_triggers_web_search:
  "retrieve
     \<lparr>namespace = ''rag-namespace'', get_embedding = (\<lambda>q. Inr [1]),
      index_query = (\<lambda>ns v k. Inr (Some
        [\<lparr>match_id = ''a'', score = 0.9, match_metadata = [(''source'', ''google_drive'')]\<rparr>]))\<rparr>
     ''q'' 5 0.7
   = [\<lparr>doc_page_content = [], doc_metadata = [(''source'', ''google_drive'')],
       doc_score = 0.9, doc_id = ''a''\<rparr>]
   \<and> fst (rag_turn
      \<lparr>new_pinecone_indexer = Inl (CollaboratorError ''unused''),
       get_web_search_agent = Inr (\<lambda>q. Inr (Stream [StrChunk ''web page''] None)),
       get_rag_agent = Inr (\<lambda>p. Inr (Stream [StrChunk ''answer''] None))\<rparr>
      \<lparr>rag_enabled = True, force_web_search = False, use_web_search = True,
       exa_api_key = ''key'', similarity_threshold = 0.7,
       session_indexer = Some
         \<lparr>namespace = ''rag-namespace'', get_embedding = (\<lambda>q. Inr [1]),
          index_query = (\<lambda>ns v k. Inr (Some
            [\<lparr>match_id = ''a'', score = 0.9,
              match_metadata = [(''source'', ''google_drive'')]\<rparr>]))\<rparr>,
       session_vector_store = None, history = []\<rparr>
      ''q'')
   = [PrimaryRetrieve ''q'' 5 0.7, Notice (FoundRelevantDocuments 1 0.7),
      WebSearchRun ''q'', Notice UsingWebSearchFallback,
      ModelRun (''Context: Web Search Results:'' @ newline @ ''web page'' @ newline @ newline
                @ ''Original Question: q'' @ newline
                @ ''Please provide a comprehensive answer based on the available information.'')]"
  by (simp add: rag_turn_def search_strategy_def primary_search_def
        retrieve_as_langchain_docs_def retrieve_def to_retrieved_def dict_get_def
        use_docs_def docs_context_def web_search_step_def run_web_search_def
        generation_step_def respond_def Let_def consume_def on_chunk_def)

text \<open>
  The fallback of the \<^verbatim>\<open>except\<close> branch does run when the exception arises outside
  \<open>retrieve\<close>, as when the construction of the indexer fails.
\<close>

lemma secondary_fallback_on_constructor_error:
  assumes "\<not> force_web_search st" and "session_indexer st = None"
    and "new_pinecone_indexer cs = Inl e"
    and "session_vector_store st = Some vs"
    and "vs 5 (similarity_threshold st) query = Inr docs" and "docs \<noteq> []"
  shows "search_strategy cs st query =
           ([Notice (ErrorRetrievingDocuments e), Notice FallingBackToVectorStore,
             SecondaryRetrieve query 5 (similarity_threshold st),
             Notice (FoundRelevantDocuments (length docs) (similarity_threshold st))],
            st, Inr (docs_context docs, docs))"
proof -
  from assms(2,3) have "primary_search cs st query = ([], st, Inl e)"
    by (simp add: primary_search_def)
  with assms(1,4,5,6) show ?thesis
    by (simp add: search_strategy_def use_docs_def)
qed

text \<open>
  Claim C7 says that an exception of the primary index query makes the handler retry
  the query against the secondary store. \<open>retrieve\<close> catches the exception and
  returns no results, so the handler's \<^verbatim>\<open>except\<close> branch is not entered: with the
  index query raising and a secondary store holding two documents, the secondary store
  is not queried, no fallback notice is shown and the context stays empty.
\<close>

theorem swallowed_query_error_skips_fallback:
  "search_strategy
      \<lparr>new_pinecone_indexer = Inl (CollaboratorError ''unused''),
       get_web_search_agent = Inl (CollaboratorError ''unused''),
       get_rag_agent = Inl (CollaboratorError ''unused'')\<rparr>
      \<lparr>rag_enabled = True, force_web_search = False, use_web_search = False,
       exa_api_key = [], similarity_threshold = 0.7,
       session_indexer = Some
         \<lparr>namespace = ''rag-namespace'', get_embedding = (\<lambda>q. Inr [1]),
          index_query = (\<lambda>ns v k. Inl (CollaboratorError ''connection refused''))\<rparr>,
       session_vector_store = Some (\<lambda>k t q. Inr
         [\<lparr>page_content = ''alpha'', metadata = []\<rparr>,
          \<lparr>page_content = ''beta'', metadata = []\<rparr>]),
       history = []\<rparr>
      ''q''
   = ([PrimaryRetrieve ''q'' 5 0.7],
      \<lparr>rag_enabled = True, force_web_search = False, use_web_search = False,
       exa_api_key = [], similarity_threshold = 0.7,
       session_indexer = Some
         \<lparr>namespace = ''rag-namespace'', get_embedding = (\<lambda>q. Inr [1]),
          index_query = (\<lambda>ns v k. Inl (CollaboratorError ''connection refused''))\<rparr>,
       session_vector_store = Some (\<lambda>k t q. Inr
         [\<lparr>page_content = ''alpha'', metadata = []\<rparr>,
          \<lparr>page_content = ''beta'', metadata = []\<rparr>]),
       history = []\<rparr>,
      Inr ([], []))"
  by (simp add: search_strategy_def primary_search_def retrieve_as_langchain_docs_def
        retrieve_def use_docs_def Let_def)

end
